theory Spec2Isabelle
  imports Main "HOL-Library.AList" "HOL-Library.Sublist" "HOL-Library.Multiset"
begin

section \<open>Legacy record documents\<close>

text \<open>
  A record is a Python dict from string keys to JSON-like values. The values are
  \<open>None\<close>, booleans, (unbounded) integers, strings, lists and nested dicts; floating
  point numbers are left out of the value universe. A dict is an association list in
  insertion order: \<open>d[k] = v\<close> is \<open>AList.update k v d\<close> (in place when the key exists,
  appended otherwise), \<open>del d[k]\<close> is \<open>AList.delete k d\<close> and \<open>k in d\<close> is
  \<open>has_key d k\<close>.
\<close>

datatype json =
    JNull
  | JBool bool
  | JInt int
  | JStr string
  | JList "json list"
  | JObj "(string \<times> json) list"

type_synonym pydict = "(string \<times> json) list"

text \<open>
  The exceptions the code can raise. \<open>PyException v\<close> is the plain
  \<open>Exception(v)\<close> of \<open>_migrate_upload_type\<close> and \<open>_migrate_imprint\<close>;
  \<open>External n\<close> is any other exception class derived from \<open>Exception\<close> that a
  collaborator raises.
\<close>

datatype exn =
    NoResultFound
  | InclusionRequestExistsError
  | KeyError string
  | TypeError
  | AttributeError
  | IndexError
  | ValueError
  | PyException json
  | External string

text \<open>
  What the Python runtime decides and the code does not: the order in which a set is
  iterated, the wall clock (already formatted by \<open>datetime_to_datestamp\<close>) and
  \<open>'{0}'.format(v)\<close> on a value.
\<close>

record runtime =
  set_order :: "json list \<Rightarrow> json list"
  utcnow_datestamp :: string
  str_format :: "json \<Rightarrow> string"

definition has_key :: "pydict \<Rightarrow> string \<Rightarrow> bool" where
  "has_key d k = (map_of d k \<noteq> None)"

fun py_truthy :: "json \<Rightarrow> bool" where
  "py_truthy JNull = False"
| "py_truthy (JBool b) = b"
| "py_truthy (JInt i) = (i \<noteq> 0)"
| "py_truthy (JStr s) = (s \<noteq> [])"
| "py_truthy (JList xs) = (xs \<noteq> [])"
| "py_truthy (JObj d) = (d \<noteq> [])"

fun is_string :: "json \<Rightarrow> bool" where
  "is_string (JStr s) = True"
| "is_string v = False"

text \<open>\<open>d.get(k)\<close>: the value, or \<open>None\<close> when the key is absent.\<close>

definition dict_get :: "pydict \<Rightarrow> string \<Rightarrow> json" where
  "dict_get d k = (case map_of d k of None \<Rightarrow> JNull | Some v \<Rightarrow> v)"

text \<open>
  Iterating a value: a list yields its elements, a string its characters (strings of
  length one), a dict its keys; anything else is not iterable.
\<close>

fun py_iter :: "json \<Rightarrow> exn + json list" where
  "py_iter (JList xs) = Inr xs"
| "py_iter (JStr s) = Inr (map (\<lambda>c. JStr [c]) s)"
| "py_iter (JObj d) = Inr (map (\<lambda>kv. JStr (fst kv)) d)"
| "py_iter v = Inl TypeError"

subsection \<open>Sets\<close>

text \<open>
  A set holds hashable values only (lists and dicts raise \<open>TypeError\<close>), and compares
  them with \<open>==\<close>, under which \<open>True == 1\<close> and \<open>False == 0\<close>. A set is kept as the
  list of its elements in insertion order; adding an element equal to one already there
  changes nothing.
\<close>

fun py_hashable :: "json \<Rightarrow> bool" where
  "py_hashable (JList xs) = False"
| "py_hashable (JObj d) = False"
| "py_hashable v = True"

fun hash_key :: "json \<Rightarrow> json" where
  "hash_key (JBool b) = JInt (if b then 1 else 0)"
| "hash_key v = v"

definition set_member :: "json \<Rightarrow> json list \<Rightarrow> bool" where
  "set_member x s = (hash_key x \<in> set (map hash_key s))"

fun set_add_all :: "json list \<Rightarrow> json list \<Rightarrow> json list" where
  "set_add_all s [] = s"
| "set_add_all s (x # xs) = set_add_all (if set_member x s then s else s @ [x]) xs"

definition py_set :: "json \<Rightarrow> exn + json list" where
  "py_set v =
     (case py_iter v of
        Inl e \<Rightarrow> Inl e
      | Inr xs \<Rightarrow> if list_all py_hashable xs then Inr (set_add_all [] xs) else Inl TypeError)"

definition set_difference :: "json list \<Rightarrow> json list \<Rightarrow> json list" where
  "set_difference a b = filter (\<lambda>x. \<not> set_member x b) a"

text \<open>\<open>list(s)\<close> of a set: its elements in the order the runtime iterates them.\<close>

definition list_of_set :: "runtime \<Rightarrow> json list \<Rightarrow> json" where
  "list_of_set rt s = JList (set_order rt s)"

text \<open>The runtime iterates a set over each of its elements exactly once.\<close>

definition iterates_sets :: "runtime \<Rightarrow> bool" where
  "iterates_sets rt = (\<forall>s. mset (set_order rt s) = mset s)"

subsection \<open>Integer conversion\<close>

text \<open>
  \<open>int(v)\<close>: a boolean or an integer converts; a string converts when, stripped of
  surrounding white space, it is an optional sign and one or more decimal digits
  (\<open>ValueError\<close> otherwise); anything else raises \<open>TypeError\<close>.
\<close>

definition is_space :: "char \<Rightarrow> bool" where
  "is_space c = ((of_char c :: nat) \<in> {9, 10, 11, 12, 13, 32})"

definition is_digit :: "char \<Rightarrow> bool" where
  "is_digit c = (48 \<le> (of_char c :: nat) \<and> (of_char c :: nat) \<le> 57)"

definition strip :: "string \<Rightarrow> string" where
  "strip s = rev (dropWhile is_space (rev (dropWhile is_space s)))"

definition digits_value :: "string \<Rightarrow> int" where
  "digits_value ds = foldl (\<lambda>a c. 10 * a + (int (of_char c) - 48)) 0 ds"

definition parse_digits :: "string \<Rightarrow> exn + int" where
  "parse_digits ds =
     (if ds \<noteq> [] \<and> list_all is_digit ds then Inr (digits_value ds) else Inl ValueError)"

definition int_of_string :: "string \<Rightarrow> exn + int" where
  "int_of_string s =
     (case strip s of
        [] \<Rightarrow> Inl ValueError
      | c # cs \<Rightarrow>
          if c = CHR ''-'' then
            (case parse_digits cs of Inl e \<Rightarrow> Inl e | Inr n \<Rightarrow> Inr (- n))
          else if c = CHR ''+'' then parse_digits cs
          else parse_digits (c # cs))"

fun py_int :: "json \<Rightarrow> exn + int" where
  "py_int (JBool b) = Inr (if b then 1 else 0)"
| "py_int (JInt i) = Inr i"
| "py_int (JStr s) = int_of_string s"
| "py_int v = Inl TypeError"

section \<open>The transformation steps\<close>

text \<open>
  Each step takes the record and returns the updated record, or the exception it
  raises. The leading underscore of the source's names is dropped.
\<close>

fun remove_keys :: "string list \<Rightarrow> pydict \<Rightarrow> pydict" where
  "remove_keys [] r = r"
| "remove_keys (k # ks) r = remove_keys ks (if has_key r k then AList.delete k r else r)"

text \<open>The list \<open>keys\<close> of \<open>_remove_fields\<close>.\<close>

definition remove_fields_keys :: "string list" where
  "remove_fields_keys =
     [''fft'', ''files_to_upload'', ''files_to_upload'', ''collections'',
      ''preservation_score'', ''restriction'', ''url'', ''version_history'',
      ''documents'', ''creation_date'', ''modification_date'',
      ''system_control_number'', ''system_number'']"

definition remove_fields :: "pydict \<Rightarrow> exn + pydict" where
  "remove_fields r = Inr (remove_keys remove_fields_keys r)"

definition migrate_description :: "pydict \<Rightarrow> exn + pydict" where
  "migrate_description r =
     (if \<not> has_key r ''description'' then Inr (AList.update ''description'' (JStr []) r)
      else Inr r)"

text \<open>
  \<open>k in v\<close> for a string \<open>k\<close>: key membership in a dict, element membership in a
  list, substring test in a string, \<open>TypeError\<close> otherwise. \<open>v[k]\<close> for a string
  \<open>k\<close> is defined on dicts only.
\<close>

fun py_contains :: "string \<Rightarrow> json \<Rightarrow> exn + bool" where
  "py_contains k (JObj d) = Inr (has_key d k)"
| "py_contains k (JList xs) = Inr (JStr k \<in> set xs)"
| "py_contains k (JStr s) = Inr (sublist k s)"
| "py_contains k v = Inl TypeError"

fun py_getitem :: "json \<Rightarrow> string \<Rightarrow> exn + json" where
  "py_getitem (JObj d) k = (case map_of d k of None \<Rightarrow> Inl (KeyError k) | Some v \<Rightarrow> Inr v)"
| "py_getitem v k = Inl TypeError"

text \<open>
  The loop of \<open>_migrate_imprint\<close> over the keys, with \<open>record['part_of']\<close> as the
  accumulator \<open>p\<close> and \<open>record['imprint']\<close> as \<open>imp\<close>.
\<close>

fun copy_imprint :: "string list \<Rightarrow> json \<Rightarrow> pydict \<Rightarrow> exn + pydict" where
  "copy_imprint [] imp p = Inr p"
| "copy_imprint (k # ks) imp p =
     (case py_contains k imp of
        Inl e \<Rightarrow> Inl e
      | Inr b \<Rightarrow>
          if b then
            if has_key p k then Inl (PyException (JStr ''Cannot migrate imprint''))
            else (case py_getitem imp k of
                    Inl e \<Rightarrow> Inl e
                  | Inr v \<Rightarrow> copy_imprint ks imp (AList.update k v p))
          else copy_imprint ks imp p)"

definition migrate_imprint :: "pydict \<Rightarrow> exn + pydict" where
  "migrate_imprint r =
     (case map_of r ''imprint'' of
        None \<Rightarrow> Inr r
      | Some imp \<Rightarrow>
          (case copy_imprint [''publisher'', ''title'', ''year''] imp [] of
             Inl e \<Rightarrow> Inl e
           | Inr p \<Rightarrow> Inr (AList.delete ''imprint'' (AList.update ''part_of'' (JObj p) r))))"

definition migrate_upload_type :: "pydict \<Rightarrow> exn + pydict" where
  "migrate_upload_type r =
     (case map_of r ''upload_type'' of
        None \<Rightarrow> Inl (PyException (JObj r))
      | Some u \<Rightarrow> Inr (AList.delete ''upload_type'' (AList.update ''resource_type'' u r)))"

text \<open>
  The loop of \<open>_migrate_authors\<close>: every entry needs a \<open>get\<close> method, so it is a
  dict; a list-valued affiliation is replaced by its first element.
\<close>

fun migrate_creators :: "json list \<Rightarrow> exn + json list" where
  "migrate_creators [] = Inr []"
| "migrate_creators (c # cs) =
     (case c of
        JObj d \<Rightarrow>
          (case dict_get d ''affiliation'' of
             JList a \<Rightarrow>
               (case a of
                  [] \<Rightarrow> Inl IndexError
                | x # xs \<Rightarrow>
                    (case migrate_creators cs of
                       Inl e \<Rightarrow> Inl e
                     | Inr cs' \<Rightarrow> Inr (JObj (AList.update ''affiliation'' x d) # cs')))
           | JNull \<Rightarrow> (case migrate_creators cs of Inl e \<Rightarrow> Inl e | Inr cs' \<Rightarrow> Inr (c # cs'))
           | JBool b \<Rightarrow> (case migrate_creators cs of Inl e \<Rightarrow> Inl e | Inr cs' \<Rightarrow> Inr (c # cs'))
           | JInt i \<Rightarrow> (case migrate_creators cs of Inl e \<Rightarrow> Inl e | Inr cs' \<Rightarrow> Inr (c # cs'))
           | JStr s \<Rightarrow> (case migrate_creators cs of Inl e \<Rightarrow> Inl e | Inr cs' \<Rightarrow> Inr (c # cs'))
           | JObj m \<Rightarrow> (case migrate_creators cs of Inl e \<Rightarrow> Inl e | Inr cs' \<Rightarrow> Inr (c # cs')))
      | JNull \<Rightarrow> Inl AttributeError
      | JBool b \<Rightarrow> Inl AttributeError
      | JInt i \<Rightarrow> Inl AttributeError
      | JStr s \<Rightarrow> Inl AttributeError
      | JList xs \<Rightarrow> Inl AttributeError)"

definition migrate_authors :: "pydict \<Rightarrow> exn + pydict" where
  "migrate_authors r =
     (case map_of r ''authors'' of
        None \<Rightarrow> Inl (KeyError ''authors'')
      | Some a \<Rightarrow>
          (case py_iter a of
             Inl e \<Rightarrow> Inl e
           | Inr cs \<Rightarrow>
               (case migrate_creators cs of
                  Inl e \<Rightarrow> Inl e
                | Inr cs' \<Rightarrow>
                    Inr (AList.delete ''authors''
                          (AList.update ''creators''
                             (case a of JList xs \<Rightarrow> JList cs' | JNull \<Rightarrow> a | JBool b \<Rightarrow> a
                                | JInt i \<Rightarrow> a | JStr s \<Rightarrow> a | JObj m \<Rightarrow> a) r)))))"

definition migrate_meetings :: "pydict \<Rightarrow> exn + pydict" where
  "migrate_meetings r =
     (case map_of r ''conference_url'' of
        None \<Rightarrow> Inr r
      | Some u \<Rightarrow>
          (let r1 = (if \<not> has_key r ''meetings'' then AList.update ''meetings'' (JObj []) r
                     else r)
           in case dict_get r1 ''meetings'' of
                JObj m \<Rightarrow>
                  Inr (AList.delete ''conference_url''
                        (AList.update ''meetings'' (JObj (AList.update ''url'' u m)) r1))
              | JNull \<Rightarrow> Inl TypeError
              | JBool b \<Rightarrow> Inl TypeError
              | JInt i \<Rightarrow> Inl TypeError
              | JStr s \<Rightarrow> Inl TypeError
              | JList xs \<Rightarrow> Inl TypeError))"

text \<open>The loop that deletes the falsy entries of the agent dict.\<close>

fun prune_falsy :: "string list \<Rightarrow> pydict \<Rightarrow> pydict" where
  "prune_falsy [] d = d"
| "prune_falsy (k # ks) d =
     prune_falsy ks (if \<not> py_truthy (dict_get d k) then AList.delete k d else d)"

definition owner_agent :: "pydict \<Rightarrow> pydict" where
  "owner_agent o' =
     (let agent = [(''role'', JStr ''uploader''),
                   (''email'', dict_get o' ''email''),
                   (''username'', dict_get o' ''username''),
                   (''user_id'', dict_get o' ''id'')]
      in prune_falsy (map fst agent) agent)"

definition migrate_owners :: "pydict \<Rightarrow> exn + pydict" where
  "migrate_owners r =
     (case map_of r ''owner'' of
        None \<Rightarrow> Inr r
      | Some ow \<Rightarrow>
          (case ow of
             JObj o' \<Rightarrow>
               (case (if py_truthy (dict_get o' ''id'')
                      then (case py_int (dict_get o' ''id'') of
                              Inl e \<Rightarrow> Inl e
                            | Inr n \<Rightarrow> Inr [JInt n])
                      else Inr []) of
                  Inl e \<Rightarrow> Inl e
                | Inr owners \<Rightarrow>
                    Inr (AList.update ''_internal''
                          (JObj [(''state'', JStr ''published''),
                                 (''source'',
                                  JObj [(''legacy_deposit_id'', dict_get o' ''deposition_id''),
                                        (''agents'', JList [JObj (owner_agent o')])])])
                          (AList.update ''owners'' (JList owners)
                             (AList.delete ''owner'' r))))
           | JNull \<Rightarrow> Inl AttributeError
           | JBool b \<Rightarrow> Inl AttributeError
           | JInt i \<Rightarrow> Inl AttributeError
           | JStr s \<Rightarrow> Inl AttributeError
           | JList xs \<Rightarrow> Inl AttributeError))"

text \<open>
  A list comprehension \<open>[f(x) for x in xs]\<close> whose \<open>f\<close> may raise stops at the first
  exception.
\<close>

fun map_raise :: "('a \<Rightarrow> exn + 'b) \<Rightarrow> 'a list \<Rightarrow> exn + 'b list" where
  "map_raise f [] = Inr []"
| "map_raise f (x # xs) =
     (case f x of
        Inl e \<Rightarrow> Inl e
      | Inr y \<Rightarrow> (case map_raise f xs of Inl e \<Rightarrow> Inl e | Inr ys \<Rightarrow> Inr (y # ys)))"

definition grant_mapper :: "runtime \<Rightarrow> json \<Rightarrow> exn + json" where
  "grant_mapper rt x =
     (case py_getitem x ''identifier'' of
        Inl e \<Rightarrow> Inl e
      | Inr v \<Rightarrow>
          Inr (JObj [(''$ref'',
                 JStr (''http://dx.zenodo.org/grants/10.13039/501100000780::''
                       @ str_format rt v))]))"

definition migrate_grants :: "runtime \<Rightarrow> pydict \<Rightarrow> exn + pydict" where
  "migrate_grants rt r =
     (case map_of r ''grants'' of
        None \<Rightarrow> Inr r
      | Some g \<Rightarrow>
          (case py_iter g of
             Inl e \<Rightarrow> Inl e
           | Inr xs \<Rightarrow>
               (case map_raise (grant_mapper rt) xs of
                  Inl e \<Rightarrow> Inl e
                | Inr ys \<Rightarrow> Inr (AList.update ''grants'' (JList ys) r))))"

text \<open>
  The comprehension of \<open>_migrate_references\<close>: \<open>x.get\<close> needs a dict; an entry is kept
  when its \<open>raw_reference\<close> is truthy.
\<close>

fun filter_references :: "json list \<Rightarrow> exn + json list" where
  "filter_references [] = Inr []"
| "filter_references (x # xs) =
     (case x of
        JObj d \<Rightarrow>
          (case filter_references xs of
             Inl e \<Rightarrow> Inl e
           | Inr ys \<Rightarrow>
               if py_truthy (dict_get d ''raw_reference'')
               then Inr (JObj [(''raw_reference'', dict_get d ''raw_reference'')] # ys)
               else Inr ys)
      | JNull \<Rightarrow> Inl AttributeError
      | JBool b \<Rightarrow> Inl AttributeError
      | JInt i \<Rightarrow> Inl AttributeError
      | JStr s \<Rightarrow> Inl AttributeError
      | JList zs \<Rightarrow> Inl AttributeError)"

definition migrate_references :: "pydict \<Rightarrow> exn + pydict" where
  "migrate_references r =
     (case map_of r ''references'' of
        None \<Rightarrow> Inr r
      | Some g \<Rightarrow>
          (case py_iter g of
             Inl e \<Rightarrow> Inl e
           | Inr xs \<Rightarrow>
               (case filter_references xs of
                  Inl e \<Rightarrow> Inl e
                | Inr ys \<Rightarrow> Inr (AList.update ''references'' (JList ys) r))))"

definition migrate_oai :: "runtime \<Rightarrow> pydict \<Rightarrow> exn + pydict" where
  "migrate_oai rt r =
     (case map_of r ''oai'' of
        None \<Rightarrow> Inr r
      | Some ov \<Rightarrow>
          (case ov of
             JObj oai \<Rightarrow>
               (let sets = (case map_of oai ''indicator'' of None \<Rightarrow> JList [] | Some i \<Rightarrow> i);
                    sets' = (if is_string sets then JList [sets] else sets)
                in case map_of oai ''oai'' of
                     None \<Rightarrow> Inl (KeyError ''oai'')
                   | Some oid \<Rightarrow>
                       Inr (AList.update ''_oai''
                             (JObj [(''id'', oid), (''sets'', sets'),
                                    (''updated'', JStr (utcnow_datestamp rt))])
                             (AList.delete ''oai'' r)))
           | JNull \<Rightarrow> Inl AttributeError
           | JBool b \<Rightarrow> Inl AttributeError
           | JInt i \<Rightarrow> Inl AttributeError
           | JStr s \<Rightarrow> Inl AttributeError
           | JList xs \<Rightarrow> Inl AttributeError))"

definition migrate_communities :: "runtime \<Rightarrow> pydict \<Rightarrow> exn + pydict" where
  "migrate_communities rt r =
     (case map_of r ''communities'' of
        None \<Rightarrow> Inr r
      | Some c \<Rightarrow>
          (let comms = (if is_string c then JList [c] else c)
           in if py_truthy comms then
                (case py_set comms of
                   Inl e \<Rightarrow> Inl e
                 | Inr s \<Rightarrow> Inr (AList.update ''communities'' (list_of_set rt s) r))
              else Inr r))"

definition migrate_provisional_communities :: "runtime \<Rightarrow> pydict \<Rightarrow> exn + pydict" where
  "migrate_provisional_communities rt r =
     (case map_of r ''provisional_communities'' of
        None \<Rightarrow> Inr r
      | Some c \<Rightarrow>
          (let comms = (if is_string c then JList [c] else c)
           in if py_truthy comms then
                (case map_of r ''communities'' of
                   Some cs \<Rightarrow>
                     (case py_set comms of
                        Inl e \<Rightarrow> Inl e
                      | Inr a \<Rightarrow>
                          (case py_set cs of
                             Inl e \<Rightarrow> Inl e
                           | Inr b \<Rightarrow>
                               Inr (AList.update ''provisional_communities''
                                     (list_of_set rt (set_difference a b)) r)))
                 | None \<Rightarrow>
                     (case py_set comms of
                        Inl e \<Rightarrow> Inl e
                      | Inr a \<Rightarrow>
                          Inr (AList.update ''provisional_communities'' (list_of_set rt a) r)))
              else Inr (AList.delete ''provisional_communities'' r)))"

definition schema_uri :: string where
  "schema_uri = ''https://zenodo.org/schemas/records/record-v1.0.0.json''"

definition add_schema :: "pydict \<Rightarrow> exn + pydict" where
  "add_schema r = Inr (AList.update ''$schema'' (JStr schema_uri) r)"

section \<open>The pipeline\<close>

text \<open>
  \<open>reduce(lambda record, func: func(record), transformations, record)\<close>: the steps
  from left to right; an exception of a step ends the fold.
\<close>

fun reduce :: "(pydict \<Rightarrow> exn + pydict) list \<Rightarrow> pydict \<Rightarrow> exn + pydict" where
  "reduce [] r = Inr r"
| "reduce (f # fs) r = (case f r of Inl e \<Rightarrow> Inl e | Inr r' \<Rightarrow> reduce fs r')"

definition transformations :: "runtime \<Rightarrow> (pydict \<Rightarrow> exn + pydict) list" where
  "transformations rt =
     [remove_fields,
      migrate_upload_type,
      migrate_authors,
      migrate_oai rt,
      migrate_grants rt,
      migrate_meetings,
      migrate_owners,
      migrate_description,
      migrate_imprint,
      migrate_references,
      migrate_communities rt,
      migrate_provisional_communities rt,
      add_schema]"

definition transform_record :: "runtime \<Rightarrow> pydict \<Rightarrow> exn + pydict" where
  "transform_record rt r =
     (if has_key r ''$schema'' then Inr r else reduce (transformations rt) r)"

section \<open>The migration of one record\<close>

text \<open>
  \<open>migrate_record\<close> talks to collaborators that are not part of the sources: the
  record store, the community store, the inclusion request factory, the database
  session, the persistent identifier store and the optional logger. Every call to one of
  them is an event; the state of the world is the list of the events so far, and what a
  collaborator answers (a value or an exception) is a function of that list and of the
  arguments.
\<close>

text \<open>
  Modelled from the spec: the enumeration \<open>PIDStatus\<close> is not in the sources; the
  spec names its value "reserved", used as the failure marker.
\<close>

datatype pid_status = RESERVED | Status string

datatype log_message =
    Already_migrated
  | Community_does_not_exist json string
  | Inclusion_request_exists
  | Deleted_record

type_synonym record_obj = "string \<times> pydict"

datatype event =
    Get_record string
  | Record_commit record_obj
  | Community_get json
  | InclusionRequest_create string record_obj
  | Session_add string json
  | Session_commit
  | Session_rollback
  | Pid_get_by_object string string string
  | Set_pid_status string pid_status
  | Logger_info log_message
  | Logger_warning log_message

record collaborators =
  get_record :: "event list \<Rightarrow> string \<Rightarrow> exn + record_obj"
  record_commit :: "event list \<Rightarrow> record_obj \<Rightarrow> exn + unit"
  community_get :: "event list \<Rightarrow> json \<Rightarrow> exn + string option"
  inclusion_request_create :: "event list \<Rightarrow> string \<Rightarrow> record_obj \<Rightarrow> exn + unit"
  session_add :: "event list \<Rightarrow> string \<Rightarrow> json \<Rightarrow> exn + unit"
  session_commit :: "event list \<Rightarrow> exn + unit"
  session_rollback :: "event list \<Rightarrow> exn + unit"
  pid_get_by_object :: "event list \<Rightarrow> string \<Rightarrow> string \<Rightarrow> string \<Rightarrow> exn + string"
  logger_info :: "event list \<Rightarrow> log_message \<Rightarrow> exn + unit"
  logger_warning :: "event list \<Rightarrow> log_message \<Rightarrow> exn + unit"

type_synonym 'a io = "event list \<Rightarrow> (exn + 'a) \<times> event list"

text \<open>A call: the answer depends on the events before it, and the call is recorded.\<close>

definition call :: "event \<Rightarrow> (event list \<Rightarrow> exn + 'a) \<Rightarrow> 'a io" where
  "call ev answer h = (answer h, h @ [ev])"

definition return_io :: "'a \<Rightarrow> 'a io" where
  "return_io x h = (Inr x, h)"

definition raise_io :: "exn \<Rightarrow> 'a io" where
  "raise_io e h = (Inl e, h)"

definition bind_io :: "'a io \<Rightarrow> ('a \<Rightarrow> 'b io) \<Rightarrow> 'b io" where
  "bind_io m f h = (case m h of (Inl e, h') \<Rightarrow> (Inl e, h') | (Inr x, h') \<Rightarrow> f x h')"

definition lift_io :: "exn + 'a \<Rightarrow> 'a io" where
  "lift_io v h = (v, h)"

text \<open>\<open>if logger: logger.info(...)\<close> and \<open>if logger: logger.warning(...)\<close>.\<close>

definition log_info :: "collaborators \<Rightarrow> bool \<Rightarrow> log_message \<Rightarrow> unit io" where
  "log_info co logger m =
     (if logger then call (Logger_info m) (\<lambda>h. logger_info co h m) else return_io ())"

definition log_warning :: "collaborators \<Rightarrow> bool \<Rightarrow> log_message \<Rightarrow> unit io" where
  "log_warning co logger m =
     (if logger then call (Logger_warning m) (\<lambda>h. logger_warning co h m) else return_io ())"

text \<open>The body of the inner \<open>try\<close>, for one community identifier.\<close>

definition request_inclusion :: "collaborators \<Rightarrow> bool \<Rightarrow> record_obj \<Rightarrow> json \<Rightarrow> unit io" where
  "request_inclusion co logger rec c_id =
     bind_io (call (Community_get c_id) (\<lambda>h. community_get co h c_id))
       (\<lambda>c. case c of
               Some com \<Rightarrow>
                 call (InclusionRequest_create com rec)
                   (\<lambda>h. inclusion_request_create co h com rec)
             | None \<Rightarrow> log_warning co logger (Community_does_not_exist c_id (fst rec)))"

text \<open>
  The loop over the provisional communities: \<open>InclusionRequestExistsError\<close> from the
  inner \<open>try\<close> is logged and the loop goes on; any other exception leaves the loop.
\<close>

fun create_inclusion_requests ::
  "collaborators \<Rightarrow> bool \<Rightarrow> record_obj \<Rightarrow> json list \<Rightarrow> unit io" where
  "create_inclusion_requests co logger rec [] h = (Inr (), h)"
| "create_inclusion_requests co logger rec (c_id # cs) h =
     (case request_inclusion co logger rec c_id h of
        (Inr u, h') \<Rightarrow> create_inclusion_requests co logger rec cs h'
      | (Inl e, h') \<Rightarrow>
          if e = InclusionRequestExistsError then
            (case log_warning co logger Inclusion_request_exists h' of
               (Inr u, h'') \<Rightarrow> create_inclusion_requests co logger rec cs h''
             | (Inl e', h'') \<Rightarrow> (Inl e', h''))
          else (Inl e, h'))"

text \<open>
  The set comprehension \<open>{file['bucket'] for file in record.get('files', [])}\<close>,
  with the set built so far as the accumulator.
\<close>

fun bucket_set :: "json list \<Rightarrow> json list \<Rightarrow> exn + json list" where
  "bucket_set [] s = Inr s"
| "bucket_set (f # fs) s =
     (case py_getitem f ''bucket'' of
        Inl e \<Rightarrow> Inl e
      | Inr b \<Rightarrow>
          if py_hashable b then bucket_set fs (if set_member b s then s else s @ [b])
          else Inl TypeError)"

definition bucket_ids :: "pydict \<Rightarrow> exn + json list" where
  "bucket_ids r =
     (case py_iter (case map_of r ''files'' of None \<Rightarrow> JList [] | Some fs \<Rightarrow> fs) of
        Inl e \<Rightarrow> Inl e
      | Inr fs \<Rightarrow> bucket_set fs [])"

fun add_buckets :: "collaborators \<Rightarrow> string \<Rightarrow> json list \<Rightarrow> unit io" where
  "add_buckets co rid [] h = (Inr (), h)"
| "add_buckets co rid (b # bs) h =
     (case call (Session_add rid b) (\<lambda>h. session_add co h rid b) h of
        (Inr u, h') \<Rightarrow> add_buckets co rid bs h'
      | (Inl e, h') \<Rightarrow> (Inl e, h'))"

text \<open>
  The statements after \<open>record.commit()\<close>: the inclusion requests, the deletion of
  \<open>provisional_communities\<close>, the bucket rows and the commit of the session.
\<close>

definition post_process :: "collaborators \<Rightarrow> runtime \<Rightarrow> bool \<Rightarrow> record_obj \<Rightarrow> unit io" where
  "post_process co rt logger rec =
     bind_io
       (case map_of (snd rec) ''provisional_communities'' of
          None \<Rightarrow> return_io rec
        | Some pc \<Rightarrow>
            bind_io (lift_io (py_iter pc))
              (\<lambda>ids. bind_io (create_inclusion_requests co logger rec ids)
                 (\<lambda>u. return_io (fst rec, AList.delete ''provisional_communities'' (snd rec)))))
       (\<lambda>rec'. bind_io (lift_io (bucket_ids (snd rec')))
          (\<lambda>bs. bind_io (add_buckets co (fst rec') (set_order rt bs))
             (\<lambda>u. call Session_commit (session_commit co))))"

text \<open>The body of the outer \<open>try\<close>.\<close>

definition try_body :: "collaborators \<Rightarrow> runtime \<Rightarrow> string \<Rightarrow> bool \<Rightarrow> unit io" where
  "try_body co rt record_uuid logger =
     bind_io (call (Get_record record_uuid) (\<lambda>h. get_record co h record_uuid))
       (\<lambda>rec.
          if has_key (snd rec) ''$schema'' then log_info co logger Already_migrated
          else
            bind_io (lift_io (transform_record rt (snd rec)))
              (\<lambda>r'. bind_io (call (Record_commit (fst rec, r'))
                                (\<lambda>h. record_commit co h (fst rec, r')))
                 (\<lambda>u. post_process co rt logger (fst rec, r'))))"

text \<open>
  The handler of \<open>except Exception\<close>: roll back, look the identifier up, set its status,
  commit, and raise the exception again. An exception of one of these calls replaces it.
\<close>

definition mark_reserved :: "collaborators \<Rightarrow> string \<Rightarrow> exn \<Rightarrow> unit io" where
  "mark_reserved co record_uuid e =
     bind_io (call Session_rollback (session_rollback co))
       (\<lambda>u. bind_io (call (Pid_get_by_object ''recid'' ''rec'' record_uuid)
                       (\<lambda>h. pid_get_by_object co h ''recid'' ''rec'' record_uuid))
          (\<lambda>pid. bind_io (call (Set_pid_status pid RESERVED) (\<lambda>h. Inr ()))
             (\<lambda>u. bind_io (call Session_commit (session_commit co))
                (\<lambda>u. raise_io e))))"

definition migrate_record :: "collaborators \<Rightarrow> runtime \<Rightarrow> string \<Rightarrow> bool \<Rightarrow> unit io" where
  "migrate_record co rt record_uuid logger h =
     (case try_body co rt record_uuid logger h of
        (Inr u, h') \<Rightarrow> (Inr u, h')
      | (Inl e, h') \<Rightarrow>
          if e = NoResultFound then log_info co logger Deleted_record h'
          else mark_reserved co record_uuid e h')"

section \<open>Preconditions of the steps\<close>

text \<open>
  What each step needs of the legacy record in order not to raise, written on the
  fields of the input. \<open>iter_all p v\<close>: the value \<open>v\<close> can be iterated and every
  element satisfies \<open>p\<close>.
\<close>

definition iter_all :: "(json \<Rightarrow> bool) \<Rightarrow> json \<Rightarrow> bool" where
  "iter_all p v = (case py_iter v of Inl e \<Rightarrow> False | Inr xs \<Rightarrow> list_all p xs)"

fun is_dict :: "json \<Rightarrow> bool" where
  "is_dict (JObj d) = True"
| "is_dict v = False"

text \<open>An author entry is a dict whose affiliation is not the empty list.\<close>

fun creator_ok :: "json \<Rightarrow> bool" where
  "creator_ok (JObj d) = (dict_get d ''affiliation'' \<noteq> JList [])"
| "creator_ok v = False"

definition authors_pre :: "json option \<Rightarrow> bool" where
  "authors_pre a = (case a of None \<Rightarrow> False | Some v \<Rightarrow> iter_all creator_ok v)"

fun oai_pre :: "json option \<Rightarrow> bool" where
  "oai_pre None = True"
| "oai_pre (Some (JObj d)) = has_key d ''oai''"
| "oai_pre (Some v) = False"

fun grant_ok :: "json \<Rightarrow> bool" where
  "grant_ok (JObj d) = has_key d ''identifier''"
| "grant_ok v = False"

definition grants_pre :: "json option \<Rightarrow> bool" where
  "grants_pre g = (case g of None \<Rightarrow> True | Some v \<Rightarrow> iter_all grant_ok v)"

definition meetings_pre :: "json option \<Rightarrow> json option \<Rightarrow> bool" where
  "meetings_pre url m =
     (case url of
        None \<Rightarrow> True
      | Some u \<Rightarrow> (case m of None \<Rightarrow> True | Some v \<Rightarrow> is_dict v))"

definition all_digits :: "string \<Rightarrow> bool" where
  "all_digits ds = (ds \<noteq> [] \<and> list_all is_digit ds)"

definition is_int_literal :: "string \<Rightarrow> bool" where
  "is_int_literal s =
     (case strip s of
        [] \<Rightarrow> False
      | c # cs \<Rightarrow> if c = CHR ''-'' \<or> c = CHR ''+'' then all_digits cs else all_digits (c # cs))"

fun int_convertible :: "json \<Rightarrow> bool" where
  "int_convertible (JBool b) = True"
| "int_convertible (JInt i) = True"
| "int_convertible (JStr s) = is_int_literal s"
| "int_convertible v = False"

fun owner_pre :: "json option \<Rightarrow> bool" where
  "owner_pre None = True"
| "owner_pre (Some (JObj d)) =
     (\<not> py_truthy (dict_get d ''id'') \<or> int_convertible (dict_get d ''id''))"
| "owner_pre (Some v) = False"

text \<open>
  An imprint is a dict, or a list or string in which none of the three keys occurs (the
  loop then copies nothing).
\<close>

fun imprint_pre :: "json option \<Rightarrow> bool" where
  "imprint_pre None = True"
| "imprint_pre (Some (JObj d)) = True"
| "imprint_pre (Some (JList xs)) =
     list_all (\<lambda>k. JStr k \<notin> set xs) [''publisher'', ''title'', ''year'']"
| "imprint_pre (Some (JStr s)) =
     list_all (\<lambda>k. \<not> sublist k s) [''publisher'', ''title'', ''year'']"
| "imprint_pre (Some v) = False"

definition references_pre :: "json option \<Rightarrow> bool" where
  "references_pre g = (case g of None \<Rightarrow> True | Some v \<Rightarrow> iter_all is_dict v)"

text \<open>\<open>set(v)\<close> does not raise: \<open>v\<close> is iterable and its elements are hashable.\<close>

definition settable :: "json \<Rightarrow> bool" where
  "settable v = iter_all py_hashable v"

definition communities_pre :: "json option \<Rightarrow> bool" where
  "communities_pre c =
     (case c of None \<Rightarrow> True | Some v \<Rightarrow> is_string v \<or> \<not> py_truthy v \<or> settable v)"

text \<open>
  A provisional list that is a string or truthy is turned into a set, and so is the
  value of \<open>communities\<close> when that key is present; a falsy \<open>communities\<close> that is not
  a string was left as it is by the step before.
\<close>

definition provisional_communities_pre :: "json option \<Rightarrow> json option \<Rightarrow> bool" where
  "provisional_communities_pre p c =
     (case p of
        None \<Rightarrow> True
      | Some v \<Rightarrow>
          if is_string v \<or> py_truthy v then
            (is_string v \<or> settable v) \<and>
            (case c of None \<Rightarrow> True | Some w \<Rightarrow> is_string w \<or> py_truthy w \<or> settable w)
          else True)"

text \<open>
  What the provisional step needs of the record it receives, that is, after the
  communities step: both values are turned into sets.
\<close>

definition provisional_step_pre :: "json option \<Rightarrow> json option \<Rightarrow> bool" where
  "provisional_step_pre p c =
     (case p of
        None \<Rightarrow> True
      | Some v \<Rightarrow>
          if is_string v \<or> py_truthy v then
            (is_string v \<or> settable v) \<and> (case c of None \<Rightarrow> True | Some w \<Rightarrow> settable w)
          else True)"

definition other_steps_pre :: "pydict \<Rightarrow> bool" where
  "other_steps_pre r =
     (authors_pre (map_of r ''authors'') \<and>
      oai_pre (map_of r ''oai'') \<and>
      grants_pre (map_of r ''grants'') \<and>
      meetings_pre (map_of r ''conference_url'') (map_of r ''meetings'') \<and>
      owner_pre (map_of r ''owner'') \<and>
      imprint_pre (map_of r ''imprint'') \<and>
      references_pre (map_of r ''references'') \<and>
      communities_pre (map_of r ''communities'') \<and>
      provisional_communities_pre (map_of r ''provisional_communities'')
        (map_of r ''communities''))"

definition preconditions :: "pydict \<Rightarrow> bool" where
  "preconditions r = (has_key r ''upload_type'' \<and> other_steps_pre r)"

section \<open>Independence of the steps\<close>

text \<open>
  Most steps read and write fields of their own. A step that writes only the keys
  \<open>ws\<close> leaves every other key as it is; a predicate that reads only the keys
  \<open>ks\<close> does not tell apart two records that agree on them.
\<close>

definition writes_only :: "string list \<Rightarrow> (pydict \<Rightarrow> exn + pydict) \<Rightarrow> bool" where
  "writes_only ws f = (\<forall>r r' k. f r = Inr r' \<longrightarrow> k \<notin> set ws \<longrightarrow> map_of r' k = map_of r k)"

definition reads_only :: "string list \<Rightarrow> (pydict \<Rightarrow> bool) \<Rightarrow> bool" where
  "reads_only ks P = (\<forall>r r'. (\<forall>k\<in>set ks. map_of r' k = map_of r k) \<longrightarrow> P r' = P r)"

text \<open>A step preserves a key when it returns the record with that key as it was.\<close>

definition preserves :: "string \<Rightarrow> (pydict \<Rightarrow> exn + pydict) \<Rightarrow> bool" where
  "preserves k f = (\<forall>r r'. f r = Inr r' \<longrightarrow> map_of r' k = map_of r k)"

record step_spec =
  step :: "pydict \<Rightarrow> exn + pydict"
  pre :: "pydict \<Rightarrow> bool"
  writes :: "string list"
  reads :: "string list"

definition step_correct :: "step_spec \<Rightarrow> bool" where
  "step_correct s =
     ((\<forall>r. (\<exists>r1. step s r = Inr r1) \<longleftrightarrow> pre s r) \<and>
      writes_only (writes s) (step s) \<and> reads_only (reads s) (pre s))"

text \<open>No step writes a key that a later step, or the rest of the pipeline, reads.\<close>

fun independent :: "step_spec list \<Rightarrow> string list \<Rightarrow> bool" where
  "independent [] kc = True"
| "independent (s # ss) kc =
     (list_all (\<lambda>k. k \<notin> set (writes s)) (concat (map reads ss) @ kc) \<and> independent ss kc)"

text \<open>The first ten steps of the pipeline, each with its precondition and its keys.\<close>

definition pipeline_specs :: "runtime \<Rightarrow> step_spec list" where
  "pipeline_specs rt =
     [\<lparr>step = remove_fields, pre = (\<lambda>r. True), writes = remove_fields_keys, reads = []\<rparr>,
      \<lparr>step = migrate_upload_type, pre = (\<lambda>r. has_key r ''upload_type''),
       writes = [''upload_type'', ''resource_type''], reads = [''upload_type'']\<rparr>,
      \<lparr>step = migrate_authors, pre = (\<lambda>r. authors_pre (map_of r ''authors'')),
       writes = [''authors'', ''creators''], reads = [''authors'']\<rparr>,
      \<lparr>step = migrate_oai rt, pre = (\<lambda>r. oai_pre (map_of r ''oai'')),
       writes = [''oai'', ''_oai''], reads = [''oai'']\<rparr>,
      \<lparr>step = migrate_grants rt, pre = (\<lambda>r. grants_pre (map_of r ''grants'')),
       writes = [''grants''], reads = [''grants'']\<rparr>,
      \<lparr>step = migrate_meetings,
       pre = (\<lambda>r. meetings_pre (map_of r ''conference_url'') (map_of r ''meetings'')),
       writes = [''meetings'', ''conference_url''], reads = [''conference_url'', ''meetings'']\<rparr>,
      \<lparr>step = migrate_owners, pre = (\<lambda>r. owner_pre (map_of r ''owner'')),
       writes = [''owner'', ''owners'', ''_internal''], reads = [''owner'']\<rparr>,
      \<lparr>step = migrate_description, pre = (\<lambda>r. True), writes = [''description''], reads = []\<rparr>,
      \<lparr>step = migrate_imprint, pre = (\<lambda>r. imprint_pre (map_of r ''imprint'')),
       writes = [''imprint'', ''part_of''], reads = [''imprint'']\<rparr>,
      \<lparr>step = migrate_references, pre = (\<lambda>r. references_pre (map_of r ''references'')),
       writes = [''references''], reads = [''references'']\<rparr>]"

section \<open>Sample inputs\<close>

text \<open>
  A runtime that iterates a set in insertion order, and one that iterates it backwards;
  \<open>format\<close> of a string is the string.
\<close>

definition sample_format :: "json \<Rightarrow> string" where
  "sample_format v = (case v of JStr s \<Rightarrow> s | _ \<Rightarrow> ''<value>'')"

definition sample_runtime :: runtime where
  "sample_runtime =
     \<lparr>set_order = (\<lambda>s. s), utcnow_datestamp = ''2016-03-01T10:00:00Z'',
      str_format = sample_format\<rparr>"

definition reversing_runtime :: runtime where
  "reversing_runtime =
     \<lparr>set_order = rev, utcnow_datestamp = ''2016-03-01T10:00:00Z'',
      str_format = sample_format\<rparr>"

definition minimal_record :: pydict where
  "minimal_record = [(''upload_type'', JStr ''publication''), (''authors'', JList [])]"

text \<open>What the pipeline makes of \<open>minimal_record\<close>.\<close>

definition minimal_migrated :: pydict where
  "minimal_migrated =
     [(''resource_type'', JStr ''publication''), (''creators'', JList []),
      (''description'', JStr []), (''$schema'', JStr schema_uri)]"

section \<open>Properties of the steps\<close>

subsection \<open>Dicts and the fold\<close>

lemma map_of_upd: "map_of (AList.update k v r) k' = (if k' = k then Some v else map_of r k')"
  by (simp add: update_conv')

lemma map_of_del: "map_of (AList.delete k r) k' = (if k' = k then None else map_of r k')"
  by (simp add: delete_conv')

lemma has_key_upd: "has_key (AList.update k v r) k' = (k' = k \<or> has_key r k')"
  by (simp add: has_key_def map_of_upd)

lemma has_key_del: "has_key (AList.delete k r) k' = (k' \<noteq> k \<and> has_key r k')"
  by (simp add: has_key_def map_of_del)

lemma map_of_remove_keys:
  "map_of (remove_keys ks r) k = (if k \<in> set ks then None else map_of r k)"
  by (induction ks arbitrary: r) (auto simp: map_of_del has_key_def)

lemma reduce_Cons_Inr:
  "reduce (f # fs) r = Inr r' \<longleftrightarrow> (\<exists>r1. f r = Inr r1 \<and> reduce fs r1 = Inr r')"
  by (simp split: sum.splits)

lemma not_Inl_iff: "(\<forall>e. x \<noteq> Inl e) \<longleftrightarrow> (\<exists>y. x = Inr y)"
  by (cases x) auto

lemma migrate_creators_ok:
  "(\<exists>cs'. migrate_creators cs = Inr cs') \<longleftrightarrow> list_all creator_ok cs"
proof (induction cs)
  case Nil
  show ?case by simp
next
  case (Cons c cs)
  show ?case
  proof (cases c)
    case (JObj d)
    then show ?thesis using Cons.IH
      by (cases "dict_get d ''affiliation''") (auto split: list.splits sum.splits)
  qed simp_all
qed

lemma migrate_authors_ok:
  "(\<exists>r'. migrate_authors r = Inr r') \<longleftrightarrow> authors_pre (map_of r ''authors'')"
proof (cases "map_of r ''authors''")
  case None
  then show ?thesis by (simp add: migrate_authors_def authors_pre_def)
next
  case (Some a)
  show ?thesis
  proof (cases "py_iter a")
    case (Inl e)
    with Some show ?thesis by (simp add: migrate_authors_def authors_pre_def iter_all_def)
  next
    case (Inr cs)
    with Some show ?thesis using migrate_creators_ok [of cs]
      by (cases "migrate_creators cs") (auto simp: migrate_authors_def authors_pre_def iter_all_def)
  qed
qed

lemma migrate_authors_frame:
  "migrate_authors r = Inr r' \<Longrightarrow> k \<noteq> ''authors'' \<Longrightarrow> k \<noteq> ''creators'' \<Longrightarrow> map_of r' k = map_of r k"
  by (auto simp: migrate_authors_def map_of_upd map_of_del split: option.splits sum.splits)

lemma remove_fields_frame:
  "remove_fields r = Inr r' \<Longrightarrow> k \<notin> set remove_fields_keys \<Longrightarrow> map_of r' k = map_of r k"
  by (auto simp: remove_fields_def map_of_remove_keys)

lemma remove_fields_ok: "\<exists>r'. remove_fields r = Inr r'"
  by (simp add: remove_fields_def)

lemma migrate_upload_type_ok:
  "(\<exists>r'. migrate_upload_type r = Inr r') \<longleftrightarrow> has_key r ''upload_type''"
  by (auto simp: migrate_upload_type_def has_key_def split: option.splits)

lemma migrate_upload_type_frame:
  "migrate_upload_type r = Inr r' \<Longrightarrow> k \<noteq> ''upload_type'' \<Longrightarrow> k \<noteq> ''resource_type'' \<Longrightarrow>
   map_of r' k = map_of r k"
  by (auto simp: migrate_upload_type_def map_of_upd map_of_del split: option.splits)

lemma migrate_upload_type_result:
  "migrate_upload_type r = Inr r' \<Longrightarrow>
   map_of r' ''resource_type'' = map_of r ''upload_type'' \<and> map_of r' ''upload_type'' = None"
  by (auto simp: migrate_upload_type_def map_of_upd map_of_del split: option.splits)

lemma migrate_oai_ok:
  "(\<exists>r'. migrate_oai rt r = Inr r') \<longleftrightarrow> oai_pre (map_of r ''oai'')"
proof (cases "map_of r ''oai''")
  case None
  then show ?thesis by (simp add: migrate_oai_def)
next
  case (Some v)
  then show ?thesis
    by (cases v) (auto simp: migrate_oai_def has_key_def Let_def split: option.splits)
qed

lemma migrate_oai_frame:
  "migrate_oai rt r = Inr r' \<Longrightarrow> k \<noteq> ''oai'' \<Longrightarrow> k \<noteq> ''_oai'' \<Longrightarrow> map_of r' k = map_of r k"
  by (auto simp: migrate_oai_def map_of_upd map_of_del Let_def split: option.splits json.splits)

lemma map_raise_ok:
  "(\<exists>ys. map_raise f xs = Inr ys) \<longleftrightarrow> list_all (\<lambda>x. \<exists>y. f x = Inr y) xs"
  by (induction xs) (auto split: sum.splits)

lemma grant_mapper_ok: "(\<exists>y. grant_mapper rt x = Inr y) \<longleftrightarrow> grant_ok x"
  by (cases x) (auto simp: grant_mapper_def has_key_def split: option.splits)

lemma migrate_grants_ok:
  "(\<exists>r'. migrate_grants rt r = Inr r') \<longleftrightarrow> grants_pre (map_of r ''grants'')"
proof (cases "map_of r ''grants''")
  case None
  then show ?thesis by (simp add: migrate_grants_def grants_pre_def)
next
  case (Some g)
  show ?thesis
  proof (cases "py_iter g")
    case (Inl e)
    with Some show ?thesis by (simp add: migrate_grants_def grants_pre_def iter_all_def)
  next
    case (Inr xs)
    with Some show ?thesis using map_raise_ok [of "grant_mapper rt" xs]
      by (cases "map_raise (grant_mapper rt) xs")
         (auto simp: migrate_grants_def grants_pre_def iter_all_def grant_mapper_ok)
  qed
qed

lemma migrate_grants_frame:
  "migrate_grants rt r = Inr r' \<Longrightarrow> k \<noteq> ''grants'' \<Longrightarrow> map_of r' k = map_of r k"
  by (auto simp: migrate_grants_def map_of_upd split: option.splits sum.splits)

lemma migrate_meetings_ok:
  "(\<exists>r'. migrate_meetings r = Inr r') \<longleftrightarrow>
   meetings_pre (map_of r ''conference_url'') (map_of r ''meetings'')"
proof (cases "map_of r ''conference_url''")
  case None
  then show ?thesis by (simp add: migrate_meetings_def meetings_pre_def)
next
  case (Some u)
  show ?thesis
  proof (cases "map_of r ''meetings''")
    case None
    with Some show ?thesis
      by (simp add: migrate_meetings_def meetings_pre_def has_key_def dict_get_def map_of_upd)
  next
    case (Some v)
    with \<open>map_of r ''conference_url'' = Some u\<close> show ?thesis
      by (cases v) (simp_all add: migrate_meetings_def meetings_pre_def has_key_def dict_get_def)
  qed
qed

lemma migrate_meetings_frame:
  "migrate_meetings r = Inr r' \<Longrightarrow> k \<noteq> ''meetings'' \<Longrightarrow> k \<noteq> ''conference_url'' \<Longrightarrow>
   map_of r' k = map_of r k"
  by (auto simp: migrate_meetings_def map_of_upd map_of_del Let_def
      split: option.splits json.splits if_splits)


lemma parse_digits_ok: "(\<exists>n. parse_digits ds = Inr n) \<longleftrightarrow> all_digits ds"
  by (simp add: parse_digits_def all_digits_def)

lemma int_of_string_ok: "(\<exists>n. int_of_string s = Inr n) \<longleftrightarrow> is_int_literal s"
proof (cases "strip s")
  case Nil
  then show ?thesis by (simp add: int_of_string_def is_int_literal_def)
next
  case (Cons c cs)
  then show ?thesis
    using parse_digits_ok [of cs] parse_digits_ok [of "c # cs"]
    by (cases "parse_digits cs") (auto simp: int_of_string_def is_int_literal_def)
qed

lemma py_int_ok: "(\<exists>n. py_int v = Inr n) \<longleftrightarrow> int_convertible v"
  by (cases v) (simp_all add: int_of_string_ok)

lemma migrate_owners_ok:
  "(\<exists>r'. migrate_owners r = Inr r') \<longleftrightarrow> owner_pre (map_of r ''owner'')"
proof (cases "map_of r ''owner''")
  case None
  then show ?thesis by (simp add: migrate_owners_def)
next
  case (Some v)
  show ?thesis
  proof (cases v)
    case (JObj d)
    with Some show ?thesis using py_int_ok [of "dict_get d ''id''"]
      by (cases "py_int (dict_get d ''id'')") (auto simp: migrate_owners_def)
  qed (use Some in \<open>simp_all add: migrate_owners_def\<close>)
qed

lemma migrate_owners_frame:
  "migrate_owners r = Inr r' \<Longrightarrow> k \<noteq> ''owner'' \<Longrightarrow> k \<noteq> ''owners'' \<Longrightarrow> k \<noteq> ''_internal'' \<Longrightarrow>
   map_of r' k = map_of r k"
  by (auto simp: migrate_owners_def map_of_upd map_of_del
      split: option.splits json.splits sum.splits if_splits)

lemma migrate_description_ok: "\<exists>r'. migrate_description r = Inr r'"
  by (simp add: migrate_description_def)

lemma migrate_description_frame:
  "migrate_description r = Inr r' \<Longrightarrow> k \<noteq> ''description'' \<Longrightarrow> map_of r' k = map_of r k"
  by (auto simp: migrate_description_def map_of_upd split: if_splits)

lemma filter_references_ok:
  "(\<exists>ys. filter_references xs = Inr ys) \<longleftrightarrow> list_all is_dict xs"
proof (induction xs)
  case Nil
  show ?case by simp
next
  case (Cons x xs)
  then show ?case
    by (cases x; cases "filter_references xs") auto
qed

lemma migrate_references_ok:
  "(\<exists>r'. migrate_references r = Inr r') \<longleftrightarrow> references_pre (map_of r ''references'')"
proof (cases "map_of r ''references''")
  case None
  then show ?thesis by (simp add: migrate_references_def references_pre_def)
next
  case (Some g)
  show ?thesis
  proof (cases "py_iter g")
    case (Inl e)
    with Some show ?thesis by (simp add: migrate_references_def references_pre_def iter_all_def)
  next
    case (Inr xs)
    with Some show ?thesis using filter_references_ok [of xs]
      by (cases "filter_references xs")
         (auto simp: migrate_references_def references_pre_def iter_all_def)
  qed
qed

lemma migrate_references_frame:
  "migrate_references r = Inr r' \<Longrightarrow> k \<noteq> ''references'' \<Longrightarrow> map_of r' k = map_of r k"
  by (auto simp: migrate_references_def map_of_upd split: option.splits sum.splits)

lemma py_set_ok: "(\<exists>s. py_set v = Inr s) \<longleftrightarrow> settable v"
  by (cases "py_iter v") (simp_all add: py_set_def settable_def iter_all_def)

lemma migrate_communities_ok:
  "(\<exists>r'. migrate_communities rt r = Inr r') \<longleftrightarrow> communities_pre (map_of r ''communities'')"
proof (cases "map_of r ''communities''")
  case None
  then show ?thesis by (simp add: migrate_communities_def communities_pre_def)
next
  case (Some c)
  show ?thesis
  proof (cases "is_string c")
    case True
    then obtain s where "c = JStr s" by (cases c) simp_all
    with Some show ?thesis
      by (simp add: migrate_communities_def communities_pre_def py_set_def)
  next
    case False
    with Some show ?thesis using py_set_ok [of c]
      by (cases "py_set c") (auto simp: migrate_communities_def communities_pre_def)
  qed
qed

lemma migrate_communities_frame:
  "migrate_communities rt r = Inr r' \<Longrightarrow> k \<noteq> ''communities'' \<Longrightarrow> map_of r' k = map_of r k"
  by (auto simp: migrate_communities_def map_of_upd Let_def
      split: option.splits sum.splits if_splits)

lemma add_schema_frame:
  "add_schema r = Inr r' \<Longrightarrow> k \<noteq> ''$schema'' \<Longrightarrow> map_of r' k = map_of r k"
  by (auto simp: add_schema_def map_of_upd)

lemma migrate_provisional_communities_frame:
  "migrate_provisional_communities rt r = Inr r' \<Longrightarrow> k \<noteq> ''provisional_communities'' \<Longrightarrow>
   map_of r' k = map_of r k"
  by (auto simp: migrate_provisional_communities_def map_of_upd map_of_del Let_def
      split: option.splits sum.splits if_splits)


lemma copy_imprint_dict:
  "distinct ks \<Longrightarrow> \<forall>k\<in>set ks. \<not> has_key p k \<Longrightarrow> \<exists>p'. copy_imprint ks (JObj d) p = Inr p'"
proof (induction ks arbitrary: p)
  case Nil
  show ?case by simp
next
  case (Cons k ks)
  show ?case
  proof (cases "map_of d k")
    case None
    then show ?thesis using Cons by (simp add: has_key_def)
  next
    case (Some v)
    have "\<forall>k'\<in>set ks. \<not> has_key (AList.update k v p) k'"
      using Cons.prems by (auto simp: has_key_upd)
    then obtain p' where "copy_imprint ks (JObj d) (AList.update k v p) = Inr p'"
      using Cons.IH [of "AList.update k v p"] Cons.prems by auto
    then show ?thesis using Some Cons.prems by (simp add: has_key_def)
  qed
qed

lemma copy_imprint_list:
  "(\<exists>p'. copy_imprint ks (JList xs) p = Inr p') \<longleftrightarrow> list_all (\<lambda>k. JStr k \<notin> set xs) ks"
  by (induction ks arbitrary: p) auto

lemma copy_imprint_str:
  "(\<exists>p'. copy_imprint ks (JStr s) p = Inr p') \<longleftrightarrow> list_all (\<lambda>k. \<not> sublist k s) ks"
  by (induction ks arbitrary: p) auto

lemma migrate_imprint_ok:
  "(\<exists>r'. migrate_imprint r = Inr r') \<longleftrightarrow> imprint_pre (map_of r ''imprint'')"
proof (cases "map_of r ''imprint''")
  case None
  then show ?thesis by (simp add: migrate_imprint_def)
next
  case (Some imp)
  let ?ks = "[''publisher'', ''title'', ''year'']"
  have iff: "(\<exists>r'. migrate_imprint r = Inr r') \<longleftrightarrow> (\<exists>p'. copy_imprint ?ks imp [] = Inr p')"
    using Some by (cases "copy_imprint ?ks imp []") (simp_all add: migrate_imprint_def)
  show ?thesis
  proof (cases imp)
    case (JObj d)
    have "\<exists>p'. copy_imprint ?ks (JObj d) [] = Inr p'"
      by (rule copy_imprint_dict) (simp_all add: has_key_def)
    with iff Some JObj show ?thesis by simp
  next
    case (JList xs)
    with iff Some show ?thesis using copy_imprint_list [of ?ks xs "[]"] by simp
  next
    case (JStr s)
    with iff Some show ?thesis using copy_imprint_str [of ?ks s "[]"] by simp
  qed (use iff Some in simp_all)
qed

lemma migrate_imprint_frame:
  "migrate_imprint r = Inr r' \<Longrightarrow> k \<noteq> ''imprint'' \<Longrightarrow> k \<noteq> ''part_of'' \<Longrightarrow>
   map_of r' k = map_of r k"
  by (auto simp: migrate_imprint_def map_of_upd map_of_del split: option.splits sum.splits)

lemma py_contains_error: "py_contains k v = Inl e \<Longrightarrow> e = TypeError"
  by (cases v) simp_all

lemma py_getitem_error: "py_getitem v k = Inl e \<Longrightarrow> e = TypeError \<or> e = KeyError k"
  by (cases v) (auto split: option.splits)

lemma copy_imprint_no_collision:
  "distinct ks \<Longrightarrow> \<forall>k\<in>set ks. \<not> has_key p k \<Longrightarrow>
   copy_imprint ks imp p \<noteq> Inl (PyException v)"
proof (induction ks arbitrary: p)
  case Nil
  show ?case by simp
next
  case (Cons k ks)
  show ?case
  proof (cases "py_contains k imp")
    case (Inl e)
    then show ?thesis using py_contains_error [OF Inl] by simp
  next
    case (Inr b)
    show ?thesis
    proof (cases b)
      case False
      with Inr Cons show ?thesis by simp
    next
      case True
      show ?thesis
      proof (cases "py_getitem imp k")
        case (Inl e)
        then show ?thesis using py_getitem_error [OF Inl] Inr True Cons.prems by auto
      next
        case (Inr w)
        have "\<forall>k'\<in>set ks. \<not> has_key (AList.update k w p) k'"
          using Cons.prems by (auto simp: has_key_upd)
        then have "copy_imprint ks imp (AList.update k w p) \<noteq> Inl (PyException v)"
          using Cons.IH [of "AList.update k w p"] Cons.prems by auto
        then show ?thesis using Inr \<open>py_contains k imp = Inr b\<close> True Cons.prems by simp
      qed
    qed
  qed
qed

lemma set_add_all_hashable:
  "list_all py_hashable s \<Longrightarrow> list_all py_hashable xs \<Longrightarrow> list_all py_hashable (set_add_all s xs)"
  by (induction xs arbitrary: s) auto

lemma py_set_hashable: "py_set v = Inr s \<Longrightarrow> list_all py_hashable s"
  by (auto simp: py_set_def set_add_all_hashable split: sum.splits if_splits)

lemma iterates_sets_set: "iterates_sets rt \<Longrightarrow> set (set_order rt s) = set s"
  by (metis iterates_sets_def set_mset_mset)

lemma iterates_sets_distinct: "iterates_sets rt \<Longrightarrow> distinct (set_order rt s) = distinct s"
  by (metis iterates_sets_def distinct_count_atmost_1 set_mset_mset)

lemma settable_list_of_set:
  "iterates_sets rt \<Longrightarrow> list_all py_hashable s \<Longrightarrow> settable (list_of_set rt s)"
  by (simp add: settable_def iter_all_def list_of_set_def list_all_iff iterates_sets_set)

text \<open>The value of \<open>communities\<close> after the communities step.\<close>

lemma migrate_communities_result:
  assumes "migrate_communities rt r = Inr r'" and "iterates_sets rt"
    and "map_of r ''communities'' = Some c"
  shows "\<exists>w. map_of r' ''communities'' = Some w \<and>
           (is_string w \<or> py_truthy w \<or> settable w) = (is_string c \<or> py_truthy c \<or> settable c)"
proof (cases "py_truthy (if is_string c then JList [c] else c)")
  case False
  then have "r' = r" using assms by (simp add: migrate_communities_def)
  then show ?thesis using assms by simp
next
  case True
  then obtain s where s: "py_set (if is_string c then JList [c] else c) = Inr s"
    and r': "r' = AList.update ''communities'' (list_of_set rt s) r"
    using assms by (auto simp: migrate_communities_def split: sum.splits)
  have "settable (list_of_set rt s)"
    using settable_list_of_set [OF assms(2) py_set_hashable [OF s]] .
  moreover have "is_string c \<or> py_truthy c \<or> settable c"
    using True s py_set_ok [of c] by (cases "is_string c") auto
  ultimately show ?thesis using r' by (auto simp: map_of_upd)
qed

lemma migrate_provisional_communities_ok:
  "(\<exists>r'. migrate_provisional_communities rt r = Inr r') \<longleftrightarrow>
   (case map_of r ''provisional_communities'' of
      None \<Rightarrow> True
    | Some v \<Rightarrow>
        if is_string v \<or> py_truthy v then
          (is_string v \<or> settable v) \<and>
          (case map_of r ''communities'' of None \<Rightarrow> True | Some w \<Rightarrow> settable w)
        else True)"
proof (cases "map_of r ''provisional_communities''")
  case None
  then show ?thesis by (simp add: migrate_provisional_communities_def)
next
  case (Some v)
  let ?comms = "if is_string v then JList [v] else v"
  have truthy: "py_truthy ?comms = (is_string v \<or> py_truthy v)" by simp
  have st: "(\<exists>a. py_set ?comms = Inr a) = (is_string v \<or> settable v)"
  proof (cases "is_string v")
    case True
    then obtain s where "v = JStr s" by (cases v) simp_all
    then show ?thesis by (simp add: py_set_def)
  next
    case False
    then show ?thesis using py_set_ok [of v] by simp
  qed
  show ?thesis
  proof (cases "is_string v \<or> py_truthy v")
    case False
    then show ?thesis using Some truthy
      by (simp add: migrate_provisional_communities_def del: py_truthy.simps)
  next
    case True
    show ?thesis
    proof (cases "map_of r ''communities''")
      case None
      then show ?thesis using Some True truthy st
        by (cases "py_set ?comms") (auto simp: migrate_provisional_communities_def Let_def)
    next
      case (Some w)
      then show ?thesis using \<open>map_of r ''provisional_communities'' = Some v\<close> True truthy st
          py_set_ok [of w]
        by (cases "py_set ?comms"; cases "py_set w")
           (auto simp: migrate_provisional_communities_def Let_def)
    qed
  qed
qed

lemma migrate_provisional_communities_ok':
  "(\<exists>r'. migrate_provisional_communities rt r = Inr r') \<longleftrightarrow>
   provisional_step_pre (map_of r ''provisional_communities'') (map_of r ''communities'')"
  unfolding provisional_step_pre_def by (rule migrate_provisional_communities_ok)

lemma migrate_communities_settable:
  assumes "migrate_communities rt r = Inr r'" and "iterates_sets rt"
    and "map_of r ''communities'' = Some c"
  shows "\<exists>w. map_of r' ''communities'' = Some w \<and>
           settable w = (is_string c \<or> py_truthy c \<or> settable c)"
proof (cases "py_truthy (if is_string c then JList [c] else c)")
  case False
  then have "r' = r" using assms by (simp add: migrate_communities_def)
  moreover have "\<not> is_string c" "\<not> py_truthy c" using False by (auto split: if_splits)
  ultimately show ?thesis using assms by simp
next
  case True
  then obtain s where s: "py_set (if is_string c then JList [c] else c) = Inr s"
    and r': "r' = AList.update ''communities'' (list_of_set rt s) r"
    using assms by (auto simp: migrate_communities_def split: sum.splits)
  have "settable (list_of_set rt s)"
    using settable_list_of_set [OF assms(2) py_set_hashable [OF s]] .
  moreover have "is_string c \<or> py_truthy c \<or> settable c"
    using True s py_set_ok [of c] by (cases "is_string c") auto
  ultimately show ?thesis using r' by (auto simp: map_of_upd)
qed

lemma migrate_communities_None:
  "migrate_communities rt r = Inr r' \<Longrightarrow> map_of r ''communities'' = None \<Longrightarrow> r' = r"
  by (simp add: migrate_communities_def)

lemma reduce_step:
  assumes "(\<exists>r1. f r = Inr r1) \<longleftrightarrow> P"
    and "\<And>r1. f r = Inr r1 \<Longrightarrow> (\<exists>r'. reduce fs r1 = Inr r') \<longleftrightarrow> Q"
  shows "(\<exists>r'. reduce (f # fs) r = Inr r') \<longleftrightarrow> P \<and> Q"
  using assms by (cases "f r") auto

lemma tail_schema: "(\<exists>r'. reduce [add_schema] r = Inr r') \<longleftrightarrow> True"
  by (simp add: add_schema_def)

lemma tail_provisional:
  "(\<exists>r'. reduce [migrate_provisional_communities rt, add_schema] r = Inr r') \<longleftrightarrow>
   provisional_step_pre (map_of r ''provisional_communities'') (map_of r ''communities'')"
  using reduce_step [OF migrate_provisional_communities_ok' tail_schema] by simp

lemma provisional_after_communities:
  assumes "migrate_communities rt r = Inr r1" and "iterates_sets rt"
    and "communities_pre (map_of r ''communities'')"
  shows "provisional_step_pre (map_of r1 ''provisional_communities'') (map_of r1 ''communities'')
         = provisional_communities_pre (map_of r ''provisional_communities'')
             (map_of r ''communities'')"
proof -
  have p: "map_of r1 ''provisional_communities'' = map_of r ''provisional_communities''"
    using migrate_communities_frame [OF assms(1)] by simp
  show ?thesis
  proof (cases "map_of r ''communities''")
    case None
    then show ?thesis using migrate_communities_None [OF assms(1)]
      by (simp add: provisional_step_pre_def provisional_communities_pre_def
          split: option.splits)
  next
    case (Some c)
    then obtain w where "map_of r1 ''communities'' = Some w"
      "settable w = (is_string c \<or> py_truthy c \<or> settable c)"
      using migrate_communities_settable [OF assms(1,2)] by blast
    then show ?thesis using Some p
      by (simp add: provisional_step_pre_def provisional_communities_pre_def
          split: option.splits)
  qed
qed

lemma tail_communities:
  assumes "iterates_sets rt"
  shows "(\<exists>r'. reduce [migrate_communities rt, migrate_provisional_communities rt, add_schema] r
            = Inr r') \<longleftrightarrow>
         communities_pre (map_of r ''communities'') \<and>
         provisional_communities_pre (map_of r ''provisional_communities'')
           (map_of r ''communities'')"
proof (cases "communities_pre (map_of r ''communities'')")
  case False
  then show ?thesis using migrate_communities_ok [of rt r]
    by (cases "migrate_communities rt r") auto
next
  case True
  then obtain r1 where r1: "migrate_communities rt r = Inr r1"
    using migrate_communities_ok [of rt r] by blast
  show ?thesis
    using True r1 tail_provisional [of rt r1] provisional_after_communities [OF r1 assms True]
    by simp
qed

subsection \<open>A fold of independent steps\<close>

lemma reads_onlyD:
  "reads_only ks P \<Longrightarrow> (\<And>k. k \<in> set ks \<Longrightarrow> map_of r' k = map_of r k) \<Longrightarrow> P r' = P r"
  unfolding reads_only_def by blast

lemma writes_onlyD:
  "writes_only ws f \<Longrightarrow> f r = Inr r' \<Longrightarrow> k \<notin> set ws \<Longrightarrow> map_of r' k = map_of r k"
  unfolding writes_only_def by blast

lemma reduce_independent:
  assumes "list_all step_correct ss" and "independent ss kc" and "reads_only kc C"
    and "\<And>r. (\<exists>r'. reduce fs r = Inr r') \<longleftrightarrow> C r"
  shows "(\<exists>r'. reduce (map step ss @ fs) r = Inr r') \<longleftrightarrow> list_all (\<lambda>s. pre s r) ss \<and> C r"
  using assms(1,2)
proof (induction ss arbitrary: r)
  case Nil
  show ?case using assms(4) by simp
next
  case (Cons s ss)
  have sc: "step_correct s" and rest: "list_all step_correct ss" using Cons.prems(1) by simp_all
  have ind: "independent ss kc" using Cons.prems(2) by simp
  have later: "\<And>k. k \<in> set (concat (map reads ss) @ kc) \<Longrightarrow> k \<notin> set (writes s)"
    using Cons.prems(2) by (auto simp: list_all_iff)
  show ?case
  proof (cases "pre s r")
    case False
    then have "\<And>r1. step s r \<noteq> Inr r1" using sc unfolding step_correct_def by blast
    then show ?thesis using False by (cases "step s r") auto
  next
    case True
    then obtain r1 where r1: "step s r = Inr r1" using sc unfolding step_correct_def by blast
    have w: "writes_only (writes s) (step s)" using sc by (simp add: step_correct_def)
    have same: "map_of r1 k = map_of r k" if "k \<in> set (concat (map reads ss) @ kc)" for k
      by (rule writes_onlyD [OF w r1 later [OF that]])
    have C: "C r1 = C r"
      by (rule reads_onlyD [OF assms(3)]) (simp add: same)
    have P: "list_all (\<lambda>t. pre t r1) ss = list_all (\<lambda>t. pre t r) ss"
    proof -
      have "pre t r1 = pre t r" if "t \<in> set ss" for t
      proof -
        have "reads_only (reads t) (pre t)"
          using rest that by (auto simp: list_all_iff step_correct_def)
        moreover have "map_of r1 k = map_of r k" if "k \<in> set (reads t)" for k
        proof (rule same)
          show "k \<in> set (concat (map reads ss) @ kc)"
            using that \<open>t \<in> set ss\<close> by auto
        qed
        ultimately show ?thesis by (rule reads_onlyD)
      qed
      then show ?thesis by (simp add: list_all_iff)
    qed
    show ?thesis using Cons.IH [OF rest ind, of r1] r1 True C P by simp
  qed
qed

subsection \<open>When the pipeline succeeds\<close>

lemma step_correctI:
  assumes "\<And>r. (\<exists>r1. f r = Inr r1) \<longleftrightarrow> P r"
    and "\<And>r r' k. f r = Inr r' \<Longrightarrow> k \<notin> set ws \<Longrightarrow> map_of r' k = map_of r k"
    and "\<And>r r'. (\<And>k. k \<in> set ks \<Longrightarrow> map_of r' k = map_of r k) \<Longrightarrow> P r' = P r"
  shows "step_correct \<lparr>step = f, pre = P, writes = ws, reads = ks\<rparr>"
proof -
  have "writes_only ws f"
    unfolding writes_only_def using assms(2) by blast
  moreover have "reads_only ks P"
    unfolding reads_only_def using assms(3) by blast
  ultimately show ?thesis
    using assms(1) by (simp add: step_correct_def)
qed

lemma pipeline_specs_correct: "list_all step_correct (pipeline_specs rt)"
proof -
  have 1: "step_correct \<lparr>step = remove_fields, pre = (\<lambda>r. True),
      writes = remove_fields_keys, reads = []\<rparr>"
    by (rule step_correctI, simp add: remove_fields_def, erule remove_fields_frame, simp_all)
  have 2: "step_correct \<lparr>step = migrate_upload_type, pre = (\<lambda>r. has_key r ''upload_type''),
      writes = [''upload_type'', ''resource_type''], reads = [''upload_type'']\<rparr>"
    by (rule step_correctI, rule migrate_upload_type_ok, erule migrate_upload_type_frame)
       (simp_all add: has_key_def)
  have 3: "step_correct \<lparr>step = migrate_authors, pre = (\<lambda>r. authors_pre (map_of r ''authors'')),
      writes = [''authors'', ''creators''], reads = [''authors'']\<rparr>"
    by (rule step_correctI, rule migrate_authors_ok, erule migrate_authors_frame, simp_all)
  have 4: "step_correct \<lparr>step = migrate_oai rt, pre = (\<lambda>r. oai_pre (map_of r ''oai'')),
      writes = [''oai'', ''_oai''], reads = [''oai'']\<rparr>"
    by (rule step_correctI, rule migrate_oai_ok, erule migrate_oai_frame, simp_all)
  have 5: "step_correct \<lparr>step = migrate_grants rt, pre = (\<lambda>r. grants_pre (map_of r ''grants'')),
      writes = [''grants''], reads = [''grants'']\<rparr>"
    by (rule step_correctI, rule migrate_grants_ok, erule migrate_grants_frame, simp_all)
  have 6: "step_correct \<lparr>step = migrate_meetings,
      pre = (\<lambda>r. meetings_pre (map_of r ''conference_url'') (map_of r ''meetings'')),
      writes = [''meetings'', ''conference_url''], reads = [''conference_url'', ''meetings'']\<rparr>"
    by (rule step_correctI, rule migrate_meetings_ok, erule migrate_meetings_frame, simp_all)
  have 7: "step_correct \<lparr>step = migrate_owners, pre = (\<lambda>r. owner_pre (map_of r ''owner'')),
      writes = [''owner'', ''owners'', ''_internal''], reads = [''owner'']\<rparr>"
    by (rule step_correctI, rule migrate_owners_ok, erule migrate_owners_frame, simp_all)
  have 8: "step_correct \<lparr>step = migrate_description, pre = (\<lambda>r. True),
      writes = [''description''], reads = []\<rparr>"
    by (rule step_correctI, simp add: migrate_description_def, erule migrate_description_frame,
        simp_all)
  have 9: "step_correct \<lparr>step = migrate_imprint, pre = (\<lambda>r. imprint_pre (map_of r ''imprint'')),
      writes = [''imprint'', ''part_of''], reads = [''imprint'']\<rparr>"
    by (rule step_correctI, rule migrate_imprint_ok, erule migrate_imprint_frame, simp_all)
  have 10: "step_correct \<lparr>step = migrate_references,
      pre = (\<lambda>r. references_pre (map_of r ''references'')),
      writes = [''references''], reads = [''references'']\<rparr>"
    by (rule step_correctI, rule migrate_references_ok, erule migrate_references_frame, simp_all)
  show ?thesis
    unfolding pipeline_specs_def using 1 2 3 4 5 6 7 8 9 10 by simp
qed

lemma independent_Cons:
  "later = concat (map reads ss) @ kc \<Longrightarrow> list_all (\<lambda>k. k \<notin> set (writes s)) later \<Longrightarrow>
   independent ss kc \<Longrightarrow> independent (s # ss) kc"
  by simp

lemma pipeline_specs_independent:
  "independent (pipeline_specs rt) [''communities'', ''provisional_communities'']"
  unfolding pipeline_specs_def
  apply (rule independent_Cons, simp, simp add: remove_fields_keys_def)+
  apply simp
  done

lemma pipeline_specs_steps:
  "map step (pipeline_specs rt) @
     [migrate_communities rt, migrate_provisional_communities rt, add_schema]
   = transformations rt"
  by (simp add: pipeline_specs_def transformations_def)

lemma pipeline_specs_pre:
  "list_all (\<lambda>s. pre s r) (pipeline_specs rt) \<and>
   communities_pre (map_of r ''communities'') \<and>
   provisional_communities_pre (map_of r ''provisional_communities'') (map_of r ''communities'')
   \<longleftrightarrow> preconditions r"
  by (auto simp: pipeline_specs_def preconditions_def other_steps_pre_def)

lemma pipeline_ok:
  assumes "iterates_sets rt"
  shows "(\<exists>r'. reduce (transformations rt) r = Inr r') \<longleftrightarrow> preconditions r"
proof -
  let ?C = "\<lambda>r. communities_pre (map_of r ''communities'') \<and>
    provisional_communities_pre (map_of r ''provisional_communities'') (map_of r ''communities'')"
  have "reads_only [''communities'', ''provisional_communities''] ?C"
    by (simp add: reads_only_def)
  then have "(\<exists>r'. reduce (map step (pipeline_specs rt) @
       [migrate_communities rt, migrate_provisional_communities rt, add_schema]) r = Inr r')
     \<longleftrightarrow> list_all (\<lambda>s. pre s r) (pipeline_specs rt) \<and> ?C r"
    by (rule reduce_independent [OF pipeline_specs_correct pipeline_specs_independent])
       (rule tail_communities [OF assms])
  then show ?thesis
    unfolding pipeline_specs_steps using pipeline_specs_pre [of r rt] by simp
qed

subsection \<open>Keys that later steps leave alone\<close>

lemma transform_record_ok:
  assumes "iterates_sets rt" and "\<not> has_key r ''$schema''"
  shows "(\<exists>r'. transform_record rt r = Inr r') \<longleftrightarrow> preconditions r"
  using pipeline_ok [OF assms(1), of r] assms(2) by (simp add: transform_record_def)

lemma reduce_append_Inr:
  "reduce (fs @ gs) r = Inr r' \<longleftrightarrow> (\<exists>r1. reduce fs r = Inr r1 \<and> reduce gs r1 = Inr r')"
  by (induction fs arbitrary: r) (auto split: sum.splits)

lemma reduce_preserves:
  "list_all (preserves k) fs \<Longrightarrow> reduce fs r = Inr r' \<Longrightarrow> map_of r' k = map_of r k"
proof (induction fs arbitrary: r)
  case Nil
  then show ?case by simp
next
  case (Cons f fs)
  from Cons.prems(2) obtain r1 where r1: "f r = Inr r1" and rest: "reduce fs r1 = Inr r'"
    by (auto split: sum.splits)
  have "map_of r1 k = map_of r k"
    using Cons.prems(1) r1 by (simp add: preserves_def)
  moreover have "map_of r' k = map_of r1 k"
    using Cons.IH [OF _ rest] Cons.prems(1) by simp
  ultimately show ?case by simp
qed

lemma preservesI: "writes_only ws f \<Longrightarrow> k \<notin> set ws \<Longrightarrow> preserves k f"
  unfolding writes_only_def preserves_def by blast

lemma pipeline_specs_writes:
  "s \<in> set (pipeline_specs rt) \<Longrightarrow> writes_only (writes s) (step s)"
  using pipeline_specs_correct [of rt] by (simp add: list_all_iff step_correct_def)

lemma migrate_communities_writes: "writes_only [''communities''] (migrate_communities rt)"
  unfolding writes_only_def by (auto dest: migrate_communities_frame)

lemma migrate_provisional_communities_writes:
  "writes_only [''provisional_communities''] (migrate_provisional_communities rt)"
  unfolding writes_only_def by (auto dest: migrate_provisional_communities_frame)

lemma add_schema_writes: "writes_only [''$schema''] add_schema"
  unfolding writes_only_def by (auto dest: add_schema_frame)

lemma reduce_add_schema:
  "reduce (fs @ [add_schema]) r = Inr r' \<Longrightarrow> map_of r' ''$schema'' = Some (JStr schema_uri)"
  by (auto simp: reduce_append_Inr add_schema_def map_of_upd)

lemma transformations_last:
  "transformations rt = butlast (transformations rt) @ [add_schema]"
  by (simp add: transformations_def)

lemma pipeline_schema:
  "reduce (transformations rt) r = Inr r' \<Longrightarrow> map_of r' ''$schema'' = Some (JStr schema_uri)"
  using reduce_add_schema [of "butlast (transformations rt)" r r'] transformations_last [of rt]
  by simp

subsection \<open>Sample runs\<close>

lemmas step_defs =
  remove_fields_def remove_fields_keys_def migrate_upload_type_def migrate_authors_def
  migrate_oai_def migrate_grants_def migrate_meetings_def migrate_owners_def
  migrate_description_def migrate_imprint_def migrate_references_def
  migrate_communities_def migrate_provisional_communities_def add_schema_def

lemma minimal_record_migrates:
  "transform_record sample_runtime minimal_record = Inr minimal_migrated"
  by (simp add: transform_record_def transformations_def step_defs has_key_def
      minimal_record_def minimal_migrated_def)

lemma iterates_sets_sample: "iterates_sets sample_runtime"
  by (simp add: iterates_sets_def sample_runtime_def)

lemma iterates_sets_reversing: "iterates_sets reversing_runtime"
  by (simp add: iterates_sets_def reversing_runtime_def)

section \<open>The claims\<close>

text \<open>
  C5. The collision guard of the imprint step is unreachable: whatever the record,
  \<open>_migrate_imprint\<close> never raises the exception "Cannot migrate imprint". The three
  keys are distinct and \<open>part_of\<close> starts as the empty dict, so no key is in it when
  its turn comes.
\<close>

theorem imprint_collision_unreachable:
  "migrate_imprint r \<noteq> Inl (PyException (JStr ''Cannot migrate imprint''))"
proof (cases "map_of r ''imprint''")
  case None
  then show ?thesis by (simp add: migrate_imprint_def)
next
  case (Some imp)
  have "copy_imprint [''publisher'', ''title'', ''year''] imp []
          \<noteq> Inl (PyException (JStr ''Cannot migrate imprint''))"
    by (rule copy_imprint_no_collision) (simp_all add: has_key_def)
  then show ?thesis using Some
    by (cases "copy_imprint [''publisher'', ''title'', ''year''] imp []")
       (simp_all add: migrate_imprint_def)
qed

end
